theory Spec2Isabelle
  imports Main
begin

section \<open>Data model of \<open>window.py\<close>\<close>

text \<open>
  Positions, directions and window sizes are Python integers, hence \<open>int\<close>. The
  attributes of \<open>SnakeGame\<close> that the game logic reads or writes are the fields of
  the record \<open>game\<close>. Screen, clock, fonts and the food image belong to pygame and
  are left out; so is the file written by \<open>save_high_score\<close>.
\<close>

type_synonym pos = "int \<times> int"
type_synonym color = "nat \<times> nat \<times> nat"

datatype GameState = MENU | PLAYING | PAUSED | GAME_OVER | SETTINGS

datatype py_error = IndexError

datatype key =
    K_ESCAPE | K_r | K_UP | K_w | K_DOWN | K_s | K_LEFT | K_a | K_RIGHT | K_d
  | K_SPACE | K_RETURN | K_m | K_q | K_other

datatype event = KEYDOWN key | OTHER_EVENT

record settings =
  base_speed :: int
  speed_increase :: bool
  grid_visible :: bool
  particles_enabled :: bool
  sound :: bool

text \<open>
  A particle of the explosion pool. Its velocity and remaining life are floats drawn
  from \<open>random.uniform\<close>; they only drive the animation and are not represented.
\<close>

record particle =
  p_pos :: pos
  p_max_life :: nat
  p_color :: color

text \<open>A particle of the ambient food pool, anchored at the centre of the food cell.\<close>

record food_particle =
  fp_anchor :: pos
  fp_max_life :: nat

record game =
  WIDTH :: int
  HEIGHT :: int
  GRID_WIDTH :: int
  GRID_HEIGHT :: int
  state :: GameState
  snake :: "pos list"
  direction :: pos
  next_direction :: pos
  food_pos :: pos
  score :: int
  game_over_reason :: string
  particles :: "particle list"
  food_particles :: "food_particle list"
  game_over_animation_time :: int
  high_score :: int
  settings :: settings

text \<open>
  The random source. \<open>draws\<close> is the sequence of raw values behind the calls of
  \<open>random.randint\<close> made by one run of \<open>spawn_food\<close> (two per attempt);
  \<open>ambient\<close> tells whether \<open>random.random() < 0.1\<close> held in \<open>create_food_particles\<close>.
  Every operation below runs \<open>spawn_food\<close> at most once, so one such value per
  operation describes all the randomness the game logic sees.
\<close>

record rng =
  draws :: "nat \<Rightarrow> nat"
  ambient :: bool

definition CELL_SIZE :: int where "CELL_SIZE = 25"
definition MIN_WIDTH :: int where "MIN_WIDTH = 600"
definition MIN_HEIGHT :: int where "MIN_HEIGHT = 400"
definition DEFAULT_WIDTH :: int where "DEFAULT_WIDTH = 1000"
definition DEFAULT_HEIGHT :: int where "DEFAULT_HEIGHT = 700"

definition COLOR_food :: color where "COLOR_food = (239, 68, 68)"
definition COLOR_success :: color where "COLOR_success = (34, 197, 94)"

text \<open>\<open>random.randint(lo, hi)\<close>: some integer of \<open>[lo, hi]\<close>, chosen by the raw draw.\<close>

definition randint :: "int \<Rightarrow> int \<Rightarrow> nat \<Rightarrow> int" where
  "randint lo hi r = lo + int r mod (hi - lo + 1)"

section \<open>Grid and food placement\<close>

definition update_grid_dimensions :: "game \<Rightarrow> game" where
  "update_grid_dimensions g =
     g\<lparr>GRID_WIDTH := WIDTH g div CELL_SIZE, GRID_HEIGHT := HEIGHT g div CELL_SIZE\<rparr>"

definition max_attempts :: nat where "max_attempts = 100"

text \<open>The \<open>while attempts < max_attempts\<close> loop of \<open>spawn_food\<close>.\<close>

function spawn_attempts :: "(nat \<Rightarrow> nat) \<Rightarrow> game \<Rightarrow> nat \<Rightarrow> pos option" where
  "spawn_attempts rnd g attempts =
     (if attempts < max_attempts then
        (let x = randint 0 (max 0 (GRID_WIDTH g - 1)) (rnd (2 * attempts)) * CELL_SIZE;
             y = randint 0 (max 0 (GRID_HEIGHT g - 1)) (rnd (2 * attempts + 1)) * CELL_SIZE
         in if (x, y) \<notin> set (snake g) then Some (x, y)
            else spawn_attempts rnd g (attempts + 1))
      else None)"
  by pat_completeness auto
termination
  by (relation "measure (\<lambda>(rnd, g, attempts). max_attempts - attempts)") auto

text \<open>The inner loop \<open>for y in range(0, self.HEIGHT, self.CELL_SIZE)\<close>, from \<open>y\<close> on.\<close>

function scan_y :: "game \<Rightarrow> int \<Rightarrow> int \<Rightarrow> pos option" where
  "scan_y g x y =
     (if y < HEIGHT g then
        (if (x, y) \<notin> set (snake g) then Some (x, y) else scan_y g x (y + CELL_SIZE))
      else None)"
  by pat_completeness auto
termination
  by (relation "measure (\<lambda>(g, x, y). nat (HEIGHT g - y))") (auto simp: CELL_SIZE_def)

text \<open>The outer loop \<open>for x in range(0, self.WIDTH, self.CELL_SIZE)\<close>, from \<open>x\<close> on.\<close>

function scan_x :: "game \<Rightarrow> int \<Rightarrow> pos option" where
  "scan_x g x =
     (if x < WIDTH g then
        (case scan_y g x 0 of
           Some p \<Rightarrow> Some p
         | None \<Rightarrow> scan_x g (x + CELL_SIZE))
      else None)"
  by pat_completeness auto
termination
  by (relation "measure (\<lambda>(g, x). nat (WIDTH g - x))") (auto simp: CELL_SIZE_def)

declare spawn_attempts.simps [simp del] scan_y.simps [simp del] scan_x.simps [simp del]

text \<open>
  \<open>spawn_food\<close> returns the position and the game with the grid dimensions it has
  recomputed.
\<close>

definition spawn_food :: "rng \<Rightarrow> game \<Rightarrow> pos \<times> game" where
  "spawn_food r g =
     (let g1 = update_grid_dimensions g in
      case spawn_attempts (draws r) g1 0 of
        Some p \<Rightarrow> (p, g1)
      | None \<Rightarrow>
          (case scan_x g1 0 of
             Some p \<Rightarrow> (p, g1)
           | None \<Rightarrow> ((CELL_SIZE, CELL_SIZE), g1)))"

section \<open>Particles, high score and game over\<close>

definition create_particles :: "pos \<Rightarrow> color \<Rightarrow> nat \<Rightarrow> game \<Rightarrow> game" where
  "create_particles p c count g =
     (if \<not> particles_enabled (settings g) then g
      else g\<lparr>particles := particles g @
             replicate count
               \<lparr>p_pos = (fst p + CELL_SIZE div 2, snd p + CELL_SIZE div 2),
                p_max_life = 60, p_color = c\<rparr>\<rparr>)"

definition create_food_particles :: "bool \<Rightarrow> pos \<Rightarrow> game \<Rightarrow> game" where
  "create_food_particles chance p g =
     (if \<not> particles_enabled (settings g) then g
      else if chance then
        g\<lparr>food_particles := food_particles g @
             [\<lparr>fp_anchor = (fst p + CELL_SIZE div 2, snd p + CELL_SIZE div 2),
               fp_max_life = 90\<rparr>]\<rparr>
      else g)"

definition save_high_score :: "game \<Rightarrow> game" where
  "save_high_score g = (if score g > high_score g then g\<lparr>high_score := score g\<rparr> else g)"

definition game_over :: "string \<Rightarrow> game \<Rightarrow> game" where
  "game_over reason g =
     (let g1 = g\<lparr>game_over_reason := reason\<rparr>;
          g2 = save_high_score g1;
          g3 = g2\<lparr>state := GAME_OVER\<rparr>
      in case snake g3 of
           [] \<Rightarrow> g3
         | h # _ \<Rightarrow> create_particles h COLOR_food 20 g3)"

section \<open>Reset and keyboard input\<close>

definition reset_game :: "rng \<Rightarrow> game \<Rightarrow> game" where
  "reset_game r g =
     (let g1 = update_grid_dimensions g;
          center_x = (GRID_WIDTH g1 div 2) * CELL_SIZE;
          center_y = (GRID_HEIGHT g1 div 2) * CELL_SIZE;
          g2 = g1\<lparr>snake := [(center_x, center_y)], direction := (0, 0),
                  next_direction := (0, 0)\<rparr>;
          (p, g3) = spawn_food r g2
      in g3\<lparr>food_pos := p, score := 0, game_over_reason := [], particles := [],
             food_particles := [], game_over_animation_time := 0\<rparr>)"

fun handle_playing_events :: "rng \<Rightarrow> event \<Rightarrow> game \<Rightarrow> game" where
  "handle_playing_events r OTHER_EVENT g = g"
| "handle_playing_events r (KEYDOWN k) g =
     (if k = K_ESCAPE then g\<lparr>state := PAUSED\<rparr>
      else if k = K_r then reset_game r g
      else if k \<in> {K_UP, K_w} \<and> snd (direction g) = 0 then
        g\<lparr>next_direction := (0, - CELL_SIZE)\<rparr>
      else if k \<in> {K_DOWN, K_s} \<and> snd (direction g) = 0 then
        g\<lparr>next_direction := (0, CELL_SIZE)\<rparr>
      else if k \<in> {K_LEFT, K_a} \<and> fst (direction g) = 0 then
        g\<lparr>next_direction := (- CELL_SIZE, 0)\<rparr>
      else if k \<in> {K_RIGHT, K_d} \<and> fst (direction g) = 0 then
        g\<lparr>next_direction := (CELL_SIZE, 0)\<rparr>
      else g)"

fun handle_paused_events :: "rng \<Rightarrow> event \<Rightarrow> game \<Rightarrow> game" where
  "handle_paused_events r OTHER_EVENT g = g"
| "handle_paused_events r (KEYDOWN k) g =
     (if k = K_SPACE \<or> k = K_ESCAPE then g\<lparr>state := PLAYING\<rparr>
      else if k = K_m then g\<lparr>state := MENU\<rparr>
      else if k = K_r then (reset_game r g)\<lparr>state := PLAYING\<rparr>
      else g)"

section \<open>The simulation step\<close>

text \<open>The direction in force after the first statement of \<open>update_game\<close>.\<close>

definition commit_direction :: "game \<Rightarrow> pos" where
  "commit_direction g =
     (if next_direction g \<noteq> (0, 0) then next_direction g else direction g)"

text \<open>
  \<open>update_game\<close>. Reading \<open>self.snake[0]\<close> of an empty snake raises, which is the
  result \<open>Inl IndexError\<close>.
\<close>

definition update_game :: "rng \<Rightarrow> game \<Rightarrow> py_error + game" where
  "update_game r g =
     (if state g \<noteq> PLAYING then Inr g
      else
        let g1 = g\<lparr>direction := commit_direction g\<rparr> in
        if direction g1 = (0, 0) then Inr g1
        else
          case snake g1 of
            [] \<Rightarrow> Inl IndexError
          | (head_x, head_y) # _ \<Rightarrow>
              let new_head = (head_x + fst (direction g1), head_y + snd (direction g1)) in
              if fst new_head < 0 \<or> fst new_head \<ge> WIDTH g1 \<or>
                 snd new_head < 0 \<or> snd new_head \<ge> HEIGHT g1
              then Inr (game_over ''Hit the wall!'' g1)
              else if new_head \<in> set (snake g1)
              then Inr (game_over ''Ate yourself!'' g1)
              else
                let g2 = g1\<lparr>snake := new_head # snake g1\<rparr>;
                    g3 = (if new_head = food_pos g2 then
                            (let g4 = g2\<lparr>score := score g2 + 1\<rparr>;
                                 g5 = create_particles (food_pos g4) COLOR_success 15 g4;
                                 (p, g6) = spawn_food r g5
                             in g6\<lparr>food_pos := p\<rparr>)
                          else g2\<lparr>snake := butlast (snake g2)\<rparr>)
                in Inr (create_food_particles (ambient r) (food_pos g3) g3))"

section \<open>Window resize\<close>

text \<open>
  The loop of \<open>check_bounds_after_resize\<close> that appends the segments inside the
  window to \<open>valid_snake\<close>.
\<close>

fun valid_segments :: "game \<Rightarrow> pos list \<Rightarrow> pos list \<Rightarrow> pos list" where
  "valid_segments g [] valid_snake = valid_snake"
| "valid_segments g ((x, y) # rest) valid_snake =
     (if x < WIDTH g \<and> y < HEIGHT g \<and> x \<ge> 0 \<and> y \<ge> 0
      then valid_segments g rest (valid_snake @ [(x, y)])
      else valid_segments g rest valid_snake)"

definition resize_reason :: string where
  "resize_reason = ''Screen resized - snake out of bounds!''"

definition check_bounds_after_resize :: "rng \<Rightarrow> game \<Rightarrow> game" where
  "check_bounds_after_resize r g =
     (let g1 = (if fst (food_pos g) \<ge> WIDTH g \<or> snd (food_pos g) \<ge> HEIGHT g
                then (let (p, g') = spawn_food r g in g'\<lparr>food_pos := p\<rparr>)
                else g);
          valid_snake = valid_segments g1 (snake g1) []
      in if valid_snake = [] \<or> (snake g1 \<noteq> [] \<and> hd (snake g1) \<notin> set valid_snake)
         then game_over resize_reason g1
         else
           (let g2 = g1\<lparr>snake := valid_snake\<rparr>
            in if snake g2 = [] then game_over resize_reason g2 else g2))"

definition handle_resize :: "rng \<Rightarrow> int \<Rightarrow> int \<Rightarrow> game \<Rightarrow> game" where
  "handle_resize r new_width new_height g =
     (let new_width1 = max new_width MIN_WIDTH;
          new_height1 = max new_height MIN_HEIGHT;
          new_width2 = (new_width1 div CELL_SIZE) * CELL_SIZE;
          new_height2 = (new_height1 div CELL_SIZE) * CELL_SIZE;
          g1 = g\<lparr>WIDTH := new_width2, HEIGHT := new_height2\<rparr>;
          g2 = update_grid_dimensions g1
      in if state g2 = PLAYING then check_bounds_after_resize r g2 else g2)"

section \<open>Predicates used by the properties\<close>

definition up :: pos where "up = (0, - CELL_SIZE)"
definition down :: pos where "down = (0, CELL_SIZE)"
definition left :: pos where "left = (- CELL_SIZE, 0)"
definition right :: pos where "right = (CELL_SIZE, 0)"

text \<open>The direction a movement key asks for.\<close>

fun requested_direction :: "key \<Rightarrow> pos option" where
  "requested_direction K_UP = Some up"
| "requested_direction K_w = Some up"
| "requested_direction K_DOWN = Some down"
| "requested_direction K_s = Some down"
| "requested_direction K_LEFT = Some left"
| "requested_direction K_a = Some left"
| "requested_direction K_RIGHT = Some right"
| "requested_direction K_d = Some right"
| "requested_direction _ = None"

definition perpendicular :: "pos \<Rightarrow> pos \<Rightarrow> bool" where
  "perpendicular a b = (fst a * fst b + snd a * snd b = 0)"

definition in_bounds :: "game \<Rightarrow> pos \<Rightarrow> bool" where
  "in_bounds g p = (0 \<le> fst p \<and> fst p < WIDTH g \<and> 0 \<le> snd p \<and> snd p < HEIGHT g)"

definition grid_cell :: "game \<Rightarrow> pos \<Rightarrow> bool" where
  "grid_cell g p = (in_bounds g p \<and> fst p mod CELL_SIZE = 0 \<and> snd p mod CELL_SIZE = 0)"

definition snake_inv :: "game \<Rightarrow> bool" where
  "snake_inv g = (snake g \<noteq> [] \<and> distinct (snake g) \<and> list_all (in_bounds g) (snake g))"

text \<open>The head position computed by a step: head plus committed direction.\<close>

definition new_head :: "game \<Rightarrow> pos" where
  "new_head g =
     (fst (hd (snake g)) + fst (commit_direction g),
      snd (hd (snake g)) + snd (commit_direction g))"

text \<open>Two orders in which the cells of the grid can be enumerated.\<close>

definition row_major_before :: "pos \<Rightarrow> pos \<Rightarrow> bool" where
  "row_major_before p q = (snd p < snd q \<or> (snd p = snd q \<and> fst p < fst q))"

definition column_major_before :: "pos \<Rightarrow> pos \<Rightarrow> bool" where
  "column_major_before p q = (fst p < fst q \<or> (fst p = fst q \<and> snd p < snd q))"

section \<open>Example states\<close>

definition default_settings :: settings where
  "default_settings =
     \<lparr>base_speed = 8, speed_increase = True, grid_visible = True,
      particles_enabled = True, sound = True\<rparr>"

text \<open>A random source whose every draw is 0 and that emits no ambient particle.\<close>

definition rng0 :: rng where
  "rng0 = \<lparr>draws = (\<lambda>_. 0), ambient = False\<rparr>"

text \<open>
  A game in state PLAYING in a window of the given size, with the given snake,
  direction, buffered direction and food.
\<close>

definition mk_game :: "int \<Rightarrow> int \<Rightarrow> pos list \<Rightarrow> pos \<Rightarrow> pos \<Rightarrow> pos \<Rightarrow> game" where
  "mk_game w h sn d nd f =
     \<lparr>WIDTH = w, HEIGHT = h, GRID_WIDTH = w div CELL_SIZE, GRID_HEIGHT = h div CELL_SIZE,
      state = PLAYING, snake = sn, direction = d, next_direction = nd, food_pos = f,
      score = 0, game_over_reason = [], particles = [], food_particles = [],
      game_over_animation_time = 0, high_score = 0, settings = default_settings\<rparr>"

definition wall_state :: game where
  "wall_state = mk_game 600 400 [(0, 0), (25, 0)] left (0, 0) (75, 50)"

definition eat_state :: game where
  "eat_state = mk_game 250 250 [(50, 50)] right (0, 0) (75, 50)"

definition curl_state :: game where
  "curl_state = mk_game 600 400 [(100, 0), (100, 25), (125, 25), (125, 0)] up right (75, 50)"

definition paused_resize_start :: game where
  "paused_resize_start =
     mk_game 1000 700 [(625, 0), (625, 25), (650, 25), (650, 0)] up right (75, 50)"

definition paused_resize_state :: game where
  "paused_resize_state =
     mk_game 600 400 [(625, 0), (625, 25), (650, 25), (650, 0)] up right (75, 50)"

definition turn_into_wall_state :: game where
  "turn_into_wall_state = mk_game 600 400 [(50, 0)] right up (75, 50)"

definition resize_state :: game where
  "resize_state = mk_game 1000 700 [(575, 100), (600, 100), (625, 100)] left (0, 0) (75, 50)"

definition play_state :: game where
  "play_state = mk_game 600 400 [(50, 50), (25, 50)] right (0, 0) (75, 50)"

definition full_state :: game where
  "full_state = mk_game 50 50 [(0, 0), (0, 25), (25, 25), (25, 0)] (0, 0) (0, 0) (0, 0)"

definition corner_state :: game where
  "corner_state = mk_game 600 400 [(0, 0)] (0, 0) (0, 0) (75, 50)"

section \<open>Basic facts\<close>

lemma game_over_fields:
  "snake (game_over reason g) = snake g"
  "score (game_over reason g) = score g"
  "food_pos (game_over reason g) = food_pos g"
  "state (game_over reason g) = GAME_OVER"
  "game_over_reason (game_over reason g) = reason"
  "WIDTH (game_over reason g) = WIDTH g"
  "HEIGHT (game_over reason g) = HEIGHT g"
  "direction (game_over reason g) = direction g"
  "next_direction (game_over reason g) = next_direction g"
  by (simp_all add: game_over_def save_high_score_def create_particles_def Let_def
      split: list.split)

section \<open>Turning\<close>

lemma turn_vertical:
  assumes "fst (direction g) = 0" and "snd (direction g) \<noteq> 0"
      and "requested_direction k = Some r"
  shows "handle_playing_events rn (KEYDOWN k) g =
           (if fst r \<noteq> 0 then g\<lparr>next_direction := r\<rparr> else g)"
  using assms(1,2) assms(3)[symmetric]
  by (cases k) (simp_all add: up_def down_def left_def right_def CELL_SIZE_def)

lemma turn_horizontal:
  assumes "snd (direction g) = 0" and "fst (direction g) \<noteq> 0"
      and "requested_direction k = Some r"
  shows "handle_playing_events rn (KEYDOWN k) g =
           (if snd r \<noteq> 0 then g\<lparr>next_direction := r\<rparr> else g)"
  using assms(1,2) assms(3)[symmetric]
  by (cases k) (simp_all add: up_def down_def left_def right_def CELL_SIZE_def)

lemma requested_direction_cases:
  assumes "requested_direction k = Some r"
  shows "r \<in> {up, down, left, right}"
  using assms[symmetric] by (cases k) simp_all

text \<open>
  C1. When the snake travels up, down, left or right and a movement key asks for the
  direction \<open>r\<close>, the request is stored in \<open>next_direction\<close> exactly when \<open>r\<close> is
  perpendicular to the current direction; otherwise the game is left as it was. A
  request for the reverse of the current direction is therefore always ignored.
\<close>

theorem turn_accepted_iff_perpendicular:
  assumes "direction g \<in> {up, down, left, right}"
      and "requested_direction k = Some r"
  shows "handle_playing_events rn (KEYDOWN k) g =
           (if perpendicular r (direction g) then g\<lparr>next_direction := r\<rparr> else g)
         \<and> (r = (- fst (direction g), - snd (direction g)) \<longrightarrow>
              handle_playing_events rn (KEYDOWN k) g = g)"
proof -
  have r: "r \<in> {up, down, left, right}"
    using assms(2) by (rule requested_direction_cases)
  from assms(1) consider
    (v) "fst (direction g) = 0" "snd (direction g) \<noteq> 0"
    | (h) "snd (direction g) = 0" "fst (direction g) \<noteq> 0"
    by (auto simp: up_def down_def left_def right_def CELL_SIZE_def)
  then show ?thesis
  proof cases
    case v
    have perp: "perpendicular r (direction g) = (fst r \<noteq> 0)"
      using r v by (auto simp: perpendicular_def up_def down_def left_def right_def CELL_SIZE_def)
    have rev: "r = (- fst (direction g), - snd (direction g)) \<longrightarrow> \<not> fst r \<noteq> 0"
      using v by simp
    have eq: "handle_playing_events rn (KEYDOWN k) g =
           (if fst r \<noteq> 0 then g\<lparr>next_direction := r\<rparr> else g)"
      using v assms(2) by (rule turn_vertical)
    show ?thesis
      unfolding eq perp using rev by (cases "fst r \<noteq> 0") simp_all
  next
    case h
    have perp: "perpendicular r (direction g) = (snd r \<noteq> 0)"
      using r h by (auto simp: perpendicular_def up_def down_def left_def right_def CELL_SIZE_def)
    have rev: "r = (- fst (direction g), - snd (direction g)) \<longrightarrow> \<not> snd r \<noteq> 0"
      using h by simp
    have eq: "handle_playing_events rn (KEYDOWN k) g =
           (if snd r \<noteq> 0 then g\<lparr>next_direction := r\<rparr> else g)"
      using h assms(2) by (rule turn_horizontal)
    show ?thesis
      unfolding eq perp using rev by (cases "snd r \<noteq> 0") simp_all
  qed
qed

text \<open>
  The theorem at a snake travelling right: the key for up is accepted, the key for
  left (the reversal) is not.
\<close>

theorem turn_accepted_iff_perpendicular_witness:
  "direction (mk_game 600 400 [(50, 50)] right (0, 0) (75, 50)) \<in> {up, down, left, right}
   \<and> requested_direction K_UP = Some up
   \<and> perpendicular up (direction (mk_game 600 400 [(50, 50)] right (0, 0) (75, 50)))
   \<and> handle_playing_events rng0 (KEYDOWN K_UP) (mk_game 600 400 [(50, 50)] right (0, 0) (75, 50))
       = (mk_game 600 400 [(50, 50)] right (0, 0) (75, 50))\<lparr>next_direction := up\<rparr>"
proof -
  have d: "direction (mk_game 600 400 [(50, 50)] right (0, 0) (75, 50)) \<in> {up, down, left, right}"
    by (simp add: mk_game_def)
  have k: "requested_direction K_UP = Some up" by simp
  have p: "perpendicular up (direction (mk_game 600 400 [(50, 50)] right (0, 0) (75, 50)))"
    by (simp add: mk_game_def perpendicular_def up_def right_def)
  show ?thesis
    using turn_accepted_iff_perpendicular [OF d k, of rng0] d k p by simp
qed

lemma spawn_food_snd: "snd (spawn_food r g) = update_grid_dimensions g"
  by (simp add: spawn_food_def Let_def split: option.split)

lemma update_grid_dimensions_fields:
  "snake (update_grid_dimensions g) = snake g"
  "score (update_grid_dimensions g) = score g"
  "state (update_grid_dimensions g) = state g"
  "WIDTH (update_grid_dimensions g) = WIDTH g"
  "HEIGHT (update_grid_dimensions g) = HEIGHT g"
  "food_pos (update_grid_dimensions g) = food_pos g"
  "GRID_WIDTH (update_grid_dimensions g) = WIDTH g div CELL_SIZE"
  "GRID_HEIGHT (update_grid_dimensions g) = HEIGHT g div CELL_SIZE"
  by (simp_all add: update_grid_dimensions_def)

lemma create_particles_fields:
  "snake (create_particles p c n g) = snake g"
  "score (create_particles p c n g) = score g"
  "state (create_particles p c n g) = state g"
  "WIDTH (create_particles p c n g) = WIDTH g"
  "HEIGHT (create_particles p c n g) = HEIGHT g"
  "food_pos (create_particles p c n g) = food_pos g"
  by (simp_all add: create_particles_def)

lemma create_food_particles_fields:
  "snake (create_food_particles b p g) = snake g"
  "score (create_food_particles b p g) = score g"
  "state (create_food_particles b p g) = state g"
  "WIDTH (create_food_particles b p g) = WIDTH g"
  "HEIGHT (create_food_particles b p g) = HEIGHT g"
  "food_pos (create_food_particles b p g) = food_pos g"
  by (simp_all add: create_food_particles_def)

lemma new_head_Cons:
  "snake g = (hx, hy) # rest \<Longrightarrow>
   new_head g = (hx + fst (commit_direction g), hy + snd (commit_direction g))"
  by (simp add: new_head_def)

lemma update_game_wall:
  assumes "state g = PLAYING" and "commit_direction g \<noteq> (0, 0)" and "snake g \<noteq> []"
      and "\<not> in_bounds g (new_head g)"
  shows "update_game r g = Inr (game_over ''Hit the wall!'' (g\<lparr>direction := commit_direction g\<rparr>))"
proof -
  obtain hx hy rest where s: "snake g = (hx, hy) # rest"
    using assms(3) by (cases "snake g") auto
  have st: "(state g \<noteq> PLAYING) = False" using assms(1) by simp
  have d: "(direction (g\<lparr>direction := commit_direction g\<rparr>) = (0, 0)) = False"
    using assms(2) by simp
  have w: "hx + fst (commit_direction g) < 0 \<or> WIDTH g \<le> hx + fst (commit_direction g)
        \<or> hy + snd (commit_direction g) < 0 \<or> HEIGHT g \<le> hy + snd (commit_direction g)"
    using assms(4) by (simp add: new_head_Cons [OF s] in_bounds_def not_less not_le)
  show ?thesis
    unfolding update_game_def Let_def st d if_False
    using w by (simp add: s)
qed

lemma update_game_self:
  assumes "state g = PLAYING" and "commit_direction g \<noteq> (0, 0)"
      and "in_bounds g (new_head g)" and "new_head g \<in> set (snake g)"
  shows "update_game r g = Inr (game_over ''Ate yourself!'' (g\<lparr>direction := commit_direction g\<rparr>))"
proof -
  obtain hx hy rest where s: "snake g = (hx, hy) # rest"
    using assms(4) by (cases "snake g") auto
  have st: "(state g \<noteq> PLAYING) = False" using assms(1) by simp
  have d: "(direction (g\<lparr>direction := commit_direction g\<rparr>) = (0, 0)) = False"
    using assms(2) by simp
  have nh: "new_head g = (hx + fst (commit_direction g), hy + snd (commit_direction g))"
    using s by (rule new_head_Cons)
  have nb: "\<not> (hx + fst (commit_direction g) < 0 \<or> WIDTH g \<le> hx + fst (commit_direction g)
        \<or> hy + snd (commit_direction g) < 0 \<or> HEIGHT g \<le> hy + snd (commit_direction g))"
    using assms(3) by (simp add: nh in_bounds_def not_less not_le)
  have mem: "(hx + fst (commit_direction g), hy + snd (commit_direction g)) \<in> set ((hx, hy) # rest)"
    using assms(4) by (simp only: nh s)
  show ?thesis
    unfolding update_game_def Let_def st d if_False
    using nb mem by (simp add: s del: list.set)
qed

lemma update_game_move:
  assumes "state g = PLAYING" and "commit_direction g \<noteq> (0, 0)" and "snake g \<noteq> []"
      and "in_bounds g (new_head g)" and "new_head g \<notin> set (snake g)"
  shows "update_game r g =
     Inr (if new_head g = food_pos g then
            (let sp = spawn_food r (create_particles (food_pos g) COLOR_success 15
                        (g\<lparr>direction := commit_direction g,
                           snake := new_head g # snake g, score := score g + 1\<rparr>));
                 g3 = (snd sp)\<lparr>food_pos := fst sp\<rparr>
             in create_food_particles (ambient r) (food_pos g3) g3)
          else
            create_food_particles (ambient r) (food_pos g)
              (g\<lparr>direction := commit_direction g,
                 snake := new_head g # butlast (snake g)\<rparr>))"
proof -
  obtain hx hy rest where s: "snake g = (hx, hy) # rest"
    using assms(3) by (cases "snake g") auto
  have st: "(state g \<noteq> PLAYING) = False" using assms(1) by simp
  have d: "(direction (g\<lparr>direction := commit_direction g\<rparr>) = (0, 0)) = False"
    using assms(2) by simp
  have nh: "(hx + fst (commit_direction g), hy + snd (commit_direction g)) = new_head g"
    using new_head_Cons [OF s] by simp
  have nb: "(fst (new_head g) < 0 \<or> WIDTH g \<le> fst (new_head g)
        \<or> snd (new_head g) < 0 \<or> HEIGHT g \<le> snd (new_head g)) = False"
    using assms(4) by (simp add: in_bounds_def not_less not_le)
  have mem: "(new_head g \<in> set ((hx, hy) # rest)) = False"
    using assms(5) by (simp only: s)
  have sn: "snake (g\<lparr>direction := commit_direction g\<rparr>) = (hx, hy) # rest"
    by (simp add: s)
  have dd: "direction (g\<lparr>direction := commit_direction g\<rparr>) = commit_direction g"
    "WIDTH (g\<lparr>direction := commit_direction g\<rparr>) = WIDTH g"
    "HEIGHT (g\<lparr>direction := commit_direction g\<rparr>) = HEIGHT g"
    by simp_all
  show ?thesis
    unfolding update_game_def Let_def st d sn dd list.case prod.case nh nb mem if_False
    using assms(2) by (cases "new_head g = food_pos g") (simp_all add: s case_prod_beta)
qed

section \<open>The simulation step: collisions and growth\<close>

lemma game_over_record:
  "game_over reason g =
     g\<lparr>game_over_reason := reason, high_score := max (high_score g) (score g),
       state := GAME_OVER, particles := particles (game_over reason g)\<rparr>"
  by (cases "snake g"; cases "score g > high_score g"; cases "particles_enabled (settings g)")
     (simp_all add: game_over_def save_high_score_def create_particles_def Let_def max_def)

text \<open>
  C4. In state PLAYING with a non-zero committed direction, when the new head (head plus
  direction) has x below 0 or at least \<open>WIDTH\<close>, or y below 0 or at least \<open>HEIGHT\<close>, the
  step returns a game in state \<open>GAME_OVER\<close> whose reason is "Hit the wall!".
\<close>

theorem wall_collision_game_over:
  assumes "state g = PLAYING" and "commit_direction g \<noteq> (0, 0)" and "snake g \<noteq> []"
      and "fst (new_head g) < 0 \<or> fst (new_head g) \<ge> WIDTH g \<or>
           snd (new_head g) < 0 \<or> snd (new_head g) \<ge> HEIGHT g"
  shows "\<exists>g'. update_game r g = Inr g' \<and> state g' = GAME_OVER \<and>
           game_over_reason g' = ''Hit the wall!''"
proof -
  have "\<not> in_bounds g (new_head g)"
    using assms(4) by (auto simp: in_bounds_def)
  then have "update_game r g =
      Inr (game_over ''Hit the wall!'' (g\<lparr>direction := commit_direction g\<rparr>))"
    using assms(1-3) by (simp add: update_game_wall)
  then show ?thesis
    by (simp add: game_over_fields)
qed

text \<open>
  C2, amended. In state PLAYING with a non-zero committed direction, a step whose new
  head lies inside the window and coincides with a segment of the snake as it is before
  the step (the tail included) ends the game with the reason "Ate yourself!", and the
  snake is left as it was: the membership test runs before any tail is removed.
\<close>

theorem self_collision_game_over:
  assumes "state g = PLAYING" and "commit_direction g \<noteq> (0, 0)"
      and "new_head g \<in> set (snake g)" and "in_bounds g (new_head g)"
  shows "\<exists>g'. update_game r g = Inr g' \<and> state g' = GAME_OVER \<and>
           game_over_reason g' = ''Ate yourself!'' \<and> snake g' = snake g"
proof -
  have "update_game r g =
      Inr (game_over ''Ate yourself!'' (g\<lparr>direction := commit_direction g\<rparr>))"
    using assms by (simp add: update_game_self)
  then show ?thesis
    by (simp add: game_over_fields)
qed

text \<open>
  C3. A step that is executed (state PLAYING, non-zero committed direction, new head
  inside the window and not on the snake) returns a game whose snake is the new head
  followed by the old snake when the new head is the food position, with the score
  raised by 1 and the length by 1, and the new head followed by the old snake without
  its last segment otherwise, with score and length unchanged.
\<close>

theorem step_growth:
  assumes "state g = PLAYING" and "commit_direction g \<noteq> (0, 0)" and "snake g \<noteq> []"
      and "in_bounds g (new_head g)" and "new_head g \<notin> set (snake g)"
  shows "\<exists>g'. update_game r g = Inr g' \<and> state g' = PLAYING \<and>
           (if new_head g = food_pos g
            then snake g' = new_head g # snake g \<and>
                 length (snake g') = length (snake g) + 1 \<and> score g' = score g + 1
            else snake g' = new_head g # butlast (snake g) \<and>
                 length (snake g') = length (snake g) \<and> score g' = score g)"
proof (cases "new_head g = food_pos g")
  case True
  show ?thesis
    using assms(1,3) True
    by (simp add: update_game_move [OF assms] Let_def create_food_particles_fields
        spawn_food_snd update_grid_dimensions_fields create_particles_fields)
next
  case False
  show ?thesis
    using assms(1,3) False
    by (simp add: update_game_move [OF assms] create_food_particles_fields)
qed

text \<open>
  C10, amended. When a step detects a wall collision or a self-collision, the snake, the
  score and the food position are those before the call, and the game after the call
  differs from the game before it at most in the direction (the buffered direction has
  been committed), the game-over reason, the high score, the state and the explosion
  particles.
\<close>

theorem step_failure_atomic:
  assumes "state g = PLAYING" and "commit_direction g \<noteq> (0, 0)" and "snake g \<noteq> []"
      and "\<not> in_bounds g (new_head g) \<or> new_head g \<in> set (snake g)"
  shows "\<exists>g'. update_game r g = Inr g' \<and>
           snake g' = snake g \<and> score g' = score g \<and> food_pos g' = food_pos g \<and>
           g' = g\<lparr>direction := commit_direction g, game_over_reason := game_over_reason g',
                  high_score := max (high_score g) (score g), state := GAME_OVER,
                  particles := particles g'\<rparr>"
proof -
  define g1 where "g1 = g\<lparr>direction := commit_direction g\<rparr>"
  have "\<exists>reason. update_game r g = Inr (game_over reason g1)"
  proof (cases "in_bounds g (new_head g)")
    case True
    with assms(4) have "new_head g \<in> set (snake g)" by simp
    with True show ?thesis
      using assms(1,2) by (auto simp: update_game_self g1_def)
  next
    case False
    then show ?thesis
      using assms(1-3) by (auto simp: update_game_wall g1_def)
  qed
  then obtain reason where u: "update_game r g = Inr (game_over reason g1)" ..
  have rec: "game_over reason g1 =
     g1\<lparr>game_over_reason := reason, high_score := max (high_score g1) (score g1),
       state := GAME_OVER, particles := particles (game_over reason g1)\<rparr>"
    by (rule game_over_record)
  have eq: "game_over reason g1 =
     g\<lparr>direction := commit_direction g,
       game_over_reason := game_over_reason (game_over reason g1),
       high_score := max (high_score g) (score g), state := GAME_OVER,
       particles := particles (game_over reason g1)\<rparr>"
    by (subst rec) (simp add: g1_def game_over_fields)
  show ?thesis
    unfolding u
    using eq by (simp add: game_over_fields g1_def)
qed

lemmas example_defs =
  mk_game_def commit_direction_def new_head_def in_bounds_def up_def down_def left_def
  right_def CELL_SIZE_def default_settings_def

lemma paused_resize_state_reachable:
  "handle_paused_events rng0 (KEYDOWN K_SPACE)
     (handle_resize rng0 600 400
        (handle_playing_events rng0 (KEYDOWN K_ESCAPE) paused_resize_start))
   = paused_resize_state"
  by (simp add: paused_resize_start_def paused_resize_state_def mk_game_def handle_resize_def
      update_grid_dimensions_def Let_def MIN_WIDTH_def MIN_HEIGHT_def CELL_SIZE_def)

text \<open>
  The theorem at the snake \<open>[(0,0), (25,0)]\<close> moving left: the new head is \<open>(-25, 0)\<close>.
\<close>

theorem wall_collision_game_over_witness:
  "state wall_state = PLAYING \<and> commit_direction wall_state \<noteq> (0, 0) \<and>
   snake wall_state \<noteq> [] \<and> new_head wall_state = (- 25, 0) \<and>
   (\<exists>g'. update_game rng0 wall_state = Inr g' \<and> state g' = GAME_OVER \<and>
      game_over_reason g' = ''Hit the wall!'')"
proof -
  have h1: "state wall_state = PLAYING" by (simp add: wall_state_def example_defs)
  have h2: "commit_direction wall_state \<noteq> (0, 0)" by (simp add: wall_state_def example_defs)
  have h3: "snake wall_state \<noteq> []" by (simp add: wall_state_def example_defs)
  have nh: "new_head wall_state = (- 25, 0)" by (simp add: wall_state_def example_defs)
  have h4: "fst (new_head wall_state) < 0 \<or> fst (new_head wall_state) \<ge> WIDTH wall_state \<or>
           snd (new_head wall_state) < 0 \<or> snd (new_head wall_state) \<ge> HEIGHT wall_state"
    by (simp add: nh)
  show ?thesis
    using wall_collision_game_over [OF h1 h2 h3 h4, of rng0] h1 h2 h3 nh by simp
qed

text \<open>
  The theorem in a 10 by 10 grid, snake \<open>[(50,50)]\<close> moving right onto the food at
  \<open>(75,50)\<close>.
\<close>

theorem step_growth_witness:
  "state eat_state = PLAYING \<and> commit_direction eat_state \<noteq> (0, 0) \<and>
   snake eat_state \<noteq> [] \<and> in_bounds eat_state (new_head eat_state) \<and>
   new_head eat_state \<notin> set (snake eat_state) \<and> new_head eat_state = food_pos eat_state \<and>
   (\<exists>g'. update_game rng0 eat_state = Inr g' \<and> snake g' = [(75, 50), (50, 50)] \<and>
      length (snake g') = 2 \<and> score g' = 1)"
proof -
  have h1: "state eat_state = PLAYING" by (simp add: eat_state_def example_defs)
  have h2: "commit_direction eat_state \<noteq> (0, 0)" by (simp add: eat_state_def example_defs)
  have h3: "snake eat_state \<noteq> []" by (simp add: eat_state_def example_defs)
  have nh: "new_head eat_state = (75, 50)" by (simp add: eat_state_def example_defs)
  have h4: "in_bounds eat_state (new_head eat_state)"
    unfolding nh by (simp add: eat_state_def example_defs)
  have h5: "new_head eat_state \<notin> set (snake eat_state)"
    unfolding nh by (simp add: eat_state_def example_defs)
  have f: "food_pos eat_state = (75, 50)" by (simp add: eat_state_def example_defs)
  have s: "snake eat_state = [(50, 50)]" "score eat_state = 0"
    by (simp_all add: eat_state_def example_defs)
  show ?thesis
    using step_growth [OF h1 h2 h3 h4 h5, of rng0] h1 h2 h3 h4 h5
    by (auto simp: nh f s)
qed

text \<open>
  The theorem at a snake that turns into its own tail cell, which a step without
  collision would have vacated.
\<close>

theorem self_collision_game_over_witness:
  "state curl_state = PLAYING \<and> commit_direction curl_state \<noteq> (0, 0) \<and>
   new_head curl_state \<in> set (snake curl_state) \<and> new_head curl_state = last (snake curl_state) \<and>
   in_bounds curl_state (new_head curl_state) \<and>
   (\<exists>g'. update_game rng0 curl_state = Inr g' \<and> state g' = GAME_OVER \<and>
      game_over_reason g' = ''Ate yourself!'' \<and> snake g' = snake curl_state)"
proof -
  have h1: "state curl_state = PLAYING" by (simp add: curl_state_def example_defs)
  have h2: "commit_direction curl_state \<noteq> (0, 0)" by (simp add: curl_state_def example_defs)
  have nh: "new_head curl_state = (125, 0)" by (simp add: curl_state_def example_defs)
  have s: "snake curl_state = [(100, 0), (100, 25), (125, 25), (125, 0)]"
    by (simp add: curl_state_def example_defs)
  have h3: "new_head curl_state \<in> set (snake curl_state)"
    unfolding nh s by simp
  have h4: "in_bounds curl_state (new_head curl_state)"
    unfolding nh by (simp add: curl_state_def example_defs)
  have l: "new_head curl_state = last (snake curl_state)"
    unfolding nh s by simp
  show ?thesis
    using self_collision_game_over [OF h1 h2 h3 h4, of rng0] h1 h2 h3 h4 l by simp
qed

text \<open>
  C2 as stated fails when the segment the head runs into lies outside the window: the
  wall test comes first and the reason is "Hit the wall!". The state below is reached
  by pausing, shrinking the window and resuming (\<open>paused_resize_state_reachable\<close>).
\<close>

theorem self_collision_reason_counterexample:
  "state paused_resize_state = PLAYING \<and>
   commit_direction paused_resize_state \<noteq> (0, 0) \<and>
   new_head paused_resize_state \<in> set (snake paused_resize_state) \<and>
   map_sum id game_over_reason (update_game rng0 paused_resize_state) = Inr ''Hit the wall!''"
proof -
  have h1: "state paused_resize_state = PLAYING"
    by (simp add: paused_resize_state_def example_defs)
  have h2: "commit_direction paused_resize_state \<noteq> (0, 0)"
    by (simp add: paused_resize_state_def example_defs)
  have nh: "new_head paused_resize_state = (650, 0)"
    by (simp add: paused_resize_state_def example_defs)
  have s: "snake paused_resize_state = [(625, 0), (625, 25), (650, 25), (650, 0)]"
    by (simp add: paused_resize_state_def example_defs)
  have h3: "new_head paused_resize_state \<in> set (snake paused_resize_state)"
    unfolding nh s by simp
  have h4: "snake paused_resize_state \<noteq> []" unfolding s by simp
  have h5: "\<not> in_bounds paused_resize_state (new_head paused_resize_state)"
    unfolding nh by (simp add: paused_resize_state_def example_defs)
  show ?thesis
    using h1 h2 h3 by (simp add: update_game_wall [OF h1 h2 h4 h5] game_over_fields)
qed

text \<open>
  C10 as stated fails: the direction changes too. A snake moving right in the top row
  with a buffered turn upwards hits the wall, and the game after the step has the
  direction up.
\<close>

theorem step_failure_direction_counterexample:
  "state turn_into_wall_state = PLAYING \<and>
   \<not> in_bounds turn_into_wall_state (new_head turn_into_wall_state) \<and>
   direction turn_into_wall_state = (25, 0) \<and>
   map_sum id state (update_game rng0 turn_into_wall_state) = Inr GAME_OVER \<and>
   map_sum id direction (update_game rng0 turn_into_wall_state) = Inr (0, - 25)"
proof -
  have h1: "state turn_into_wall_state = PLAYING"
    by (simp add: turn_into_wall_state_def example_defs)
  have h2: "commit_direction turn_into_wall_state \<noteq> (0, 0)"
    by (simp add: turn_into_wall_state_def example_defs)
  have c: "commit_direction turn_into_wall_state = (0, - 25)"
    by (simp add: turn_into_wall_state_def example_defs)
  have nh: "new_head turn_into_wall_state = (50, - 25)"
    by (simp add: turn_into_wall_state_def example_defs)
  have h4: "snake turn_into_wall_state \<noteq> []"
    by (simp add: turn_into_wall_state_def example_defs)
  have h5: "\<not> in_bounds turn_into_wall_state (new_head turn_into_wall_state)"
    unfolding nh by (simp add: turn_into_wall_state_def example_defs)
  have d: "direction turn_into_wall_state = (25, 0)"
    by (simp add: turn_into_wall_state_def example_defs)
  show ?thesis
    using h1 h5 d by (simp add: update_game_wall [OF h1 h2 h4 h5] game_over_fields c)
qed

text \<open>
  The theorem at a snake in the top row that has been told to turn up.
\<close>

theorem step_failure_atomic_witness:
  "state turn_into_wall_state = PLAYING \<and> commit_direction turn_into_wall_state \<noteq> (0, 0) \<and>
   snake turn_into_wall_state \<noteq> [] \<and>
   \<not> in_bounds turn_into_wall_state (new_head turn_into_wall_state) \<and>
   (\<exists>g'. update_game rng0 turn_into_wall_state = Inr g' \<and>
      snake g' = [(50, 0)] \<and> score g' = 0 \<and> food_pos g' = (75, 50) \<and> state g' = GAME_OVER)"
proof -
  have h1: "state turn_into_wall_state = PLAYING"
    by (simp add: turn_into_wall_state_def example_defs)
  have h2: "commit_direction turn_into_wall_state \<noteq> (0, 0)"
    by (simp add: turn_into_wall_state_def example_defs)
  have nh: "new_head turn_into_wall_state = (50, - 25)"
    by (simp add: turn_into_wall_state_def example_defs)
  have h3: "snake turn_into_wall_state \<noteq> []"
    by (simp add: turn_into_wall_state_def example_defs)
  have h5: "\<not> in_bounds turn_into_wall_state (new_head turn_into_wall_state)"
    unfolding nh by (simp add: turn_into_wall_state_def example_defs)
  have h4: "\<not> in_bounds turn_into_wall_state (new_head turn_into_wall_state) \<or>
      new_head turn_into_wall_state \<in> set (snake turn_into_wall_state)"
    using h5 by simp
  have v: "snake turn_into_wall_state = [(50, 0)]" "score turn_into_wall_state = 0"
    "food_pos turn_into_wall_state = (75, 50)"
    by (simp_all add: turn_into_wall_state_def example_defs)
  from step_failure_atomic [OF h1 h2 h3 h4, of rng0]
  obtain g' where g': "update_game rng0 turn_into_wall_state = Inr g'"
    "snake g' = snake turn_into_wall_state" "score g' = score turn_into_wall_state"
    "food_pos g' = food_pos turn_into_wall_state"
    "g' = turn_into_wall_state\<lparr>direction := commit_direction turn_into_wall_state,
        game_over_reason := game_over_reason g',
        high_score := max (high_score turn_into_wall_state) (score turn_into_wall_state),
        state := GAME_OVER, particles := particles g'\<rparr>"
    by blast
  have "state g' = GAME_OVER" by (subst g'(5)) simp
  then show ?thesis
    using h1 h2 h3 h5 g'(1-4) v by simp
qed

section \<open>Window resize: filtering and idempotence\<close>

lemma in_bounds_cong:
  "WIDTH g' = WIDTH g \<Longrightarrow> HEIGHT g' = HEIGHT g \<Longrightarrow> in_bounds g' = in_bounds g"
  by (rule ext) (simp add: in_bounds_def)

lemma valid_segments_filter:
  "valid_segments g xs acc = acc @ filter (in_bounds g) xs"
  by (induction g xs acc rule: valid_segments.induct) (auto simp: in_bounds_def)

lemma respawn_fields:
  fixes g r
  defines "g1 \<equiv> (if fst (food_pos g) \<ge> WIDTH g \<or> snd (food_pos g) \<ge> HEIGHT g
                then (let (p, g') = spawn_food r g in g'\<lparr>food_pos := p\<rparr>)
                else g)"
  shows "snake g1 = snake g" "WIDTH g1 = WIDTH g" "HEIGHT g1 = HEIGHT g" "state g1 = state g"
    "score g1 = score g"
    "food_pos g1 = (if fst (food_pos g) \<ge> WIDTH g \<or> snd (food_pos g) \<ge> HEIGHT g
                    then fst (spawn_food r g) else food_pos g)"
  unfolding g1_def
  by (simp_all add: case_prod_beta spawn_food_snd update_grid_dimensions_fields)

lemma check_bounds_core:
  "(let valid_snake = valid_segments g1 (snake g1) []
    in if valid_snake = [] \<or> (snake g1 \<noteq> [] \<and> hd (snake g1) \<notin> set valid_snake)
       then game_over resize_reason g1
       else (let g2 = g1\<lparr>snake := valid_snake\<rparr>
             in if snake g2 = [] then game_over resize_reason g2 else g2))
   = (if filter (in_bounds g1) (snake g1) = [] \<or>
         hd (snake g1) \<notin> set (filter (in_bounds g1) (snake g1))
      then game_over resize_reason g1
      else g1\<lparr>snake := filter (in_bounds g1) (snake g1)\<rparr>)"
proof -
  show ?thesis
  proof (cases "snake g1 = []")
    case True
    then show ?thesis by (simp add: valid_segments_filter Let_def)
  next
    case False
    then show ?thesis by (simp add: valid_segments_filter Let_def)
  qed
qed

lemma check_bounds_after_resize_eq:
  fixes g r
  defines "g1 \<equiv> (if fst (food_pos g) \<ge> WIDTH g \<or> snd (food_pos g) \<ge> HEIGHT g
                then (let (p, g') = spawn_food r g in g'\<lparr>food_pos := p\<rparr>)
                else g)"
  shows "check_bounds_after_resize r g =
     (if filter (in_bounds g) (snake g) = [] \<or>
         hd (snake g) \<notin> set (filter (in_bounds g) (snake g))
      then game_over resize_reason g1
      else g1\<lparr>snake := filter (in_bounds g) (snake g)\<rparr>)"
proof -
  have f: "snake g1 = snake g" "WIDTH g1 = WIDTH g" "HEIGHT g1 = HEIGHT g"
    unfolding g1_def by (rule respawn_fields)+
  have ib: "in_bounds g1 = in_bounds g"
    using f(2,3) by (rule in_bounds_cong)
  have A: "check_bounds_after_resize r g =
    (let valid_snake = valid_segments g1 (snake g1) []
    in if valid_snake = [] \<or> (snake g1 \<noteq> [] \<and> hd (snake g1) \<notin> set valid_snake)
       then game_over resize_reason g1
       else (let g2 = g1\<lparr>snake := valid_snake\<rparr>
             in if snake g2 = [] then game_over resize_reason g2 else g2))"
    unfolding check_bounds_after_resize_def g1_def by (simp only: Let_def)
  have "check_bounds_after_resize r g =
     (if filter (in_bounds g1) (snake g1) = [] \<or>
         hd (snake g1) \<notin> set (filter (in_bounds g1) (snake g1))
      then game_over resize_reason g1
      else g1\<lparr>snake := filter (in_bounds g1) (snake g1)\<rparr>)"
    using A check_bounds_core by (rule trans)
  then show ?thesis
    by (simp only: ib f(1))
qed

lemma game_over_grid:
  "GRID_WIDTH (game_over reason g) = GRID_WIDTH g"
  "GRID_HEIGHT (game_over reason g) = GRID_HEIGHT g"
  by (simp_all add: game_over_def save_high_score_def create_particles_def Let_def
      split: list.split)

lemma update_grid_dimensions_idem:
  "update_grid_dimensions (update_grid_dimensions g) = update_grid_dimensions g"
  by (simp add: update_grid_dimensions_def)

lemma spawn_food_update_grid:
  "spawn_food r (update_grid_dimensions g) = spawn_food r g"
  by (simp add: spawn_food_def update_grid_dimensions_idem)

lemma handle_resize_playing:
  "state g = PLAYING \<Longrightarrow>
   handle_resize r w h g =
     check_bounds_after_resize r
       (update_grid_dimensions
          (g\<lparr>WIDTH := max w MIN_WIDTH div CELL_SIZE * CELL_SIZE,
             HEIGHT := max h MIN_HEIGHT div CELL_SIZE * CELL_SIZE\<rparr>))"
  by (simp add: handle_resize_def Let_def update_grid_dimensions_fields)

lemma handle_resize_not_playing:
  "state g \<noteq> PLAYING \<Longrightarrow>
   handle_resize r w h g =
     update_grid_dimensions
       (g\<lparr>WIDTH := max w MIN_WIDTH div CELL_SIZE * CELL_SIZE,
          HEIGHT := max h MIN_HEIGHT div CELL_SIZE * CELL_SIZE\<rparr>)"
  by (simp add: handle_resize_def Let_def update_grid_dimensions_fields)

lemma hd_filter_keep:
  "xs \<noteq> [] \<Longrightarrow> P (hd xs) \<Longrightarrow> hd (filter P xs) = hd xs"
  by (cases xs) simp_all

lemma handle_resize_result:
  assumes "state g = PLAYING"
  shows "let g' = handle_resize r w h g;
             valid = filter (in_bounds g') (snake g)
         in WIDTH g' = max w MIN_WIDTH div CELL_SIZE * CELL_SIZE \<and>
            HEIGHT g' = max h MIN_HEIGHT div CELL_SIZE * CELL_SIZE \<and>
            (if valid = [] \<or> hd (snake g) \<notin> set valid
             then state g' = GAME_OVER \<and>
                  game_over_reason g' = ''Screen resized - snake out of bounds!'' \<and>
                  snake g' = snake g
             else state g' = PLAYING \<and> snake g' = valid \<and> hd (snake g') = hd (snake g)) \<and>
            (if WIDTH g' \<le> fst (food_pos g) \<or> HEIGHT g' \<le> snd (food_pos g)
             then food_pos g' =
                    fst (spawn_food r (g\<lparr>WIDTH := WIDTH g', HEIGHT := HEIGHT g'\<rparr>))
             else food_pos g' = food_pos g)"
proof -
  define W where "W = max w MIN_WIDTH div CELL_SIZE * CELL_SIZE"
  define H where "H = max h MIN_HEIGHT div CELL_SIZE * CELL_SIZE"
  define G where "G = update_grid_dimensions (g\<lparr>WIDTH := W, HEIGHT := H\<rparr>)"
  define g1 where "g1 = (if fst (food_pos G) \<ge> WIDTH G \<or> snd (food_pos G) \<ge> HEIGHT G
                then (let (p, g') = spawn_food r G in g'\<lparr>food_pos := p\<rparr>)
                else G)"
  define valid where "valid = filter (in_bounds G) (snake g)"
  have G: "WIDTH G = W" "HEIGHT G = H" "snake G = snake g" "state G = PLAYING"
    "food_pos G = food_pos g"
    using assms by (simp_all add: G_def update_grid_dimensions_fields)
  have g1: "snake g1 = snake G" "WIDTH g1 = WIDTH G" "HEIGHT g1 = HEIGHT G"
    "state g1 = state G"
    "food_pos g1 = (if fst (food_pos G) \<ge> WIDTH G \<or> snd (food_pos G) \<ge> HEIGHT G
                    then fst (spawn_food r G) else food_pos G)"
    unfolding g1_def by (rule respawn_fields)+
  have sp: "spawn_food r G = spawn_food r (g\<lparr>WIDTH := W, HEIGHT := H\<rparr>)"
    unfolding G_def by (rule spawn_food_update_grid)
  have hr: "handle_resize r w h g =
     (if valid = [] \<or> hd (snake g) \<notin> set valid
      then game_over resize_reason g1 else g1\<lparr>snake := valid\<rparr>)"
    unfolding handle_resize_playing [OF assms] W_def [symmetric] H_def [symmetric]
      G_def [symmetric] check_bounds_after_resize_eq g1_def [symmetric] G(3)
      valid_def [symmetric] ..
  have food: "food_pos (handle_resize r w h g) =
      (if W \<le> fst (food_pos g) \<or> H \<le> snd (food_pos g)
       then fst (spawn_food r (g\<lparr>WIDTH := W, HEIGHT := H\<rparr>)) else food_pos g)"
    unfolding hr by (simp add: game_over_fields g1(5) G sp)
  have wh: "WIDTH (handle_resize r w h g) = W" "HEIGHT (handle_resize r w h g) = H"
    unfolding hr by (simp_all add: game_over_fields g1 G)
  have ib: "in_bounds (handle_resize r w h g) = in_bounds G"
    by (rule in_bounds_cong) (simp_all add: wh G)
  have sn: "if valid = [] \<or> hd (snake g) \<notin> set valid
       then state (handle_resize r w h g) = GAME_OVER \<and>
            game_over_reason (handle_resize r w h g) = ''Screen resized - snake out of bounds!'' \<and>
            snake (handle_resize r w h g) = snake g
       else state (handle_resize r w h g) = PLAYING \<and> snake (handle_resize r w h g) = valid \<and>
            hd (snake (handle_resize r w h g)) = hd (snake g)"
  proof (cases "valid = [] \<or> hd (snake g) \<notin> set valid")
    case True
    then show ?thesis
      unfolding hr by (simp add: game_over_fields g1 G resize_reason_def)
  next
    case False
    then have ne: "snake g \<noteq> []" and inb: "in_bounds G (hd (snake g))"
      by (auto simp: valid_def)
    have "hd valid = hd (snake g)"
      unfolding valid_def using ne inb by (rule hd_filter_keep)
    with False show ?thesis
      unfolding hr by (simp add: g1 G)
  qed
  show ?thesis
    unfolding Let_def ib valid_def [symmetric] wh food
    using sn by (cases "valid = [] \<or> hd (snake g) \<notin> set valid") (auto simp: W_def H_def)
qed

text \<open>
  C8. A resize in state PLAYING sets the window to the clamped and snapped size. With
  \<open>valid\<close> the segments of the snake inside the new window, in their order: when
  \<open>valid\<close> is empty or does not contain the position of the head, the game goes to
  \<open>GAME_OVER\<close> with the reason "Screen resized - snake out of bounds!" and the snake is
  left as it was; otherwise the game stays in PLAYING and the snake becomes \<open>valid\<close>,
  with the same head. A food position at or beyond the new width or height is replaced
  by the result of \<open>spawn_food\<close> in the new window; otherwise the food stays.
\<close>

theorem resize_filters_snake:
  assumes "state g = PLAYING"
  shows "let g' = handle_resize r w h g;
             valid = filter (in_bounds g') (snake g)
         in WIDTH g' = max w MIN_WIDTH div CELL_SIZE * CELL_SIZE \<and>
            HEIGHT g' = max h MIN_HEIGHT div CELL_SIZE * CELL_SIZE \<and>
            (if valid = [] \<or> hd (snake g) \<notin> set valid
             then state g' = GAME_OVER \<and>
                  game_over_reason g' = ''Screen resized - snake out of bounds!'' \<and>
                  snake g' = snake g
             else state g' = PLAYING \<and> snake g' = valid \<and> hd (snake g') = hd (snake g)) \<and>
            (if WIDTH g' \<le> fst (food_pos g) \<or> HEIGHT g' \<le> snd (food_pos g)
             then food_pos g' =
                    fst (spawn_food r (g\<lparr>WIDTH := WIDTH g', HEIGHT := HEIGHT g'\<rparr>))
             else food_pos g' = food_pos g)"
  using assms by (rule handle_resize_result)

text \<open>
  The theorem at a snake of three segments of which only the head stays inside a window
  shrunk to 600 by 400.
\<close>

theorem resize_filters_snake_witness:
  "state resize_state = PLAYING \<and>
   WIDTH (handle_resize rng0 600 400 resize_state) = 600 \<and>
   HEIGHT (handle_resize rng0 600 400 resize_state) = 400 \<and>
   state (handle_resize rng0 600 400 resize_state) = PLAYING \<and>
   snake (handle_resize rng0 600 400 resize_state) = [(575, 100)] \<and>
   food_pos (handle_resize rng0 600 400 resize_state) = (75, 50)"
proof -
  have h: "state resize_state = PLAYING"
    by (simp add: resize_state_def mk_game_def)
  note t = resize_filters_snake [OF h, of rng0 600 400, unfolded Let_def]
  have w: "WIDTH (handle_resize rng0 600 400 resize_state) = 600"
    "HEIGHT (handle_resize rng0 600 400 resize_state) = 400"
    using t by (simp_all add: MIN_WIDTH_def MIN_HEIGHT_def CELL_SIZE_def)
  have s: "snake resize_state = [(575, 100), (600, 100), (625, 100)]"
    "food_pos resize_state = (75, 50)"
    by (simp_all add: resize_state_def mk_game_def)
  have v: "filter (in_bounds (handle_resize rng0 600 400 resize_state))
      [(575, 100), (600, 100), (625, 100)] = [(575, 100)]"
    by (simp add: in_bounds_def w)
  show ?thesis
    using t h by (simp add: s v w del: filter.simps)
qed

lemma resize_fixed:
  assumes "WIDTH x = w" and "HEIGHT x = h"
      and "GRID_WIDTH x = w div CELL_SIZE" and "GRID_HEIGHT x = h div CELL_SIZE"
  shows "update_grid_dimensions (x\<lparr>WIDTH := w, HEIGHT := h\<rparr>) = x"
  using assms by (cases x) (simp add: update_grid_dimensions_def)

lemma snap_valid:
  assumes "m \<le> w" and "w mod CELL_SIZE = 0"
  shows "max w m div CELL_SIZE * CELL_SIZE = w"
proof -
  have "max w m = w" using assms(1) by simp
  moreover have "CELL_SIZE dvd w" using assms(2) by (simp add: dvd_eq_mod_eq_0)
  ultimately show ?thesis by simp
qed

text \<open>
  C9. For dimensions that are at least the minimum size and multiples of the cell size,
  and a game whose snake and food lie inside a window of these dimensions, a second
  resize to the same dimensions returns the game the first resize returned; the first
  resize sets the grid to \<open>w div CELL_SIZE\<close> by \<open>h div CELL_SIZE\<close> and leaves snake and food
  as they were. This holds in every state, PLAYING included.
\<close>

theorem resize_idempotent:
  assumes "MIN_WIDTH \<le> w" and "MIN_HEIGHT \<le> h"
      and "w mod CELL_SIZE = 0" and "h mod CELL_SIZE = 0"
      and "list_all (in_bounds (g\<lparr>WIDTH := w, HEIGHT := h\<rparr>)) (snake g)"
      and "in_bounds (g\<lparr>WIDTH := w, HEIGHT := h\<rparr>) (food_pos g)"
  shows "handle_resize r2 w h (handle_resize r1 w h g) = handle_resize r1 w h g \<and>
         WIDTH (handle_resize r1 w h g) = w \<and> HEIGHT (handle_resize r1 w h g) = h \<and>
         GRID_WIDTH (handle_resize r1 w h g) = w div CELL_SIZE \<and>
         GRID_HEIGHT (handle_resize r1 w h g) = h div CELL_SIZE \<and>
         snake (handle_resize r1 w h g) = snake g \<and>
         food_pos (handle_resize r1 w h g) = food_pos g"
proof -
  define G where "G = update_grid_dimensions (g\<lparr>WIDTH := w, HEIGHT := h\<rparr>)"
  have W: "max w MIN_WIDTH div CELL_SIZE * CELL_SIZE = w"
    using assms(1,3) by (rule snap_valid)
  have H: "max h MIN_HEIGHT div CELL_SIZE * CELL_SIZE = h"
    using assms(2,4) by (rule snap_valid)
  have G: "WIDTH G = w" "HEIGHT G = h" "GRID_WIDTH G = w div CELL_SIZE"
    "GRID_HEIGHT G = h div CELL_SIZE" "snake G = snake g" "food_pos G = food_pos g"
    "state G = state g"
    by (simp_all add: G_def update_grid_dimensions_fields)
  have ibG: "in_bounds G = in_bounds (g\<lparr>WIDTH := w, HEIGHT := h\<rparr>)"
    by (rule in_bounds_cong) (simp_all add: G)
  have all: "filter (in_bounds G) (snake G) = snake g"
    using assms(5) by (simp add: ibG G(5) list_all_iff)
  have nofood: "\<not> (fst (food_pos G) \<ge> WIDTH G \<or> snd (food_pos G) \<ge> HEIGHT G)"
    using assms(6) by (simp add: G in_bounds_def)
  have cb: "check_bounds_after_resize r G =
      (if snake g = [] then game_over resize_reason G else G)" for r
    unfolding check_bounds_after_resize_eq all
    using nofood G(5) by (cases "snake g = []") simp_all
  have stay: "update_grid_dimensions (x\<lparr>WIDTH := w, HEIGHT := h\<rparr>) = x"
    if "x = G \<or> x = game_over resize_reason G" for x
    using that by (auto intro!: resize_fixed simp: G game_over_fields game_over_grid)
  have once: "handle_resize r1 w h g =
      (if state g = PLAYING then (if snake g = [] then game_over resize_reason G else G) else G)"
  proof (cases "state g = PLAYING")
    case True
    then show ?thesis
      by (simp add: handle_resize_playing W H G_def [symmetric] cb)
  next
    case False
    then show ?thesis
      by (simp add: handle_resize_not_playing W H G_def [symmetric])
  qed
  have twice: "handle_resize r2 w h (handle_resize r1 w h g) = handle_resize r1 w h g"
  proof (cases "state g = PLAYING \<and> snake g \<noteq> []")
    case True
    then have o: "handle_resize r1 w h g = G" by (simp add: once)
    have "handle_resize r2 w h G = check_bounds_after_resize r2 G"
      using True by (simp add: handle_resize_playing G(7) W H stay)
    then show ?thesis
      using True by (simp add: o cb)
  next
    case False
    define x where "x = handle_resize r1 w h g"
    have x: "x = G \<or> x = game_over resize_reason G"
      unfolding x_def once by simp
    have "state x \<noteq> PLAYING"
      using False x unfolding x_def once by (auto simp: game_over_fields G(7))
    then have "handle_resize r2 w h x = x"
      by (simp add: handle_resize_not_playing W H stay [OF x])
    then show ?thesis unfolding x_def .
  qed
  show ?thesis
    using twice by (simp add: once G game_over_fields game_over_grid)
qed

text \<open>
  The theorem at a PLAYING game in a 600 by 400 window, resized to 600 by 400.
\<close>

theorem resize_idempotent_witness:
  "MIN_WIDTH \<le> 600 \<and> MIN_HEIGHT \<le> 400 \<and> 600 mod CELL_SIZE = 0 \<and> 400 mod CELL_SIZE = 0 \<and>
   state play_state = PLAYING \<and>
   handle_resize rng0 600 400 (handle_resize rng0 600 400 play_state)
     = handle_resize rng0 600 400 play_state \<and>
   GRID_WIDTH (handle_resize rng0 600 400 play_state) = 24 \<and>
   GRID_HEIGHT (handle_resize rng0 600 400 play_state) = 16 \<and>
   snake (handle_resize rng0 600 400 play_state) = [(50, 50), (25, 50)] \<and>
   food_pos (handle_resize rng0 600 400 play_state) = (75, 50)"
proof -
  have h1: "MIN_WIDTH \<le> 600" by (simp add: MIN_WIDTH_def)
  have h2: "MIN_HEIGHT \<le> 400" by (simp add: MIN_HEIGHT_def)
  have h3: "600 mod CELL_SIZE = 0" by (simp add: CELL_SIZE_def)
  have h4: "400 mod CELL_SIZE = 0" by (simp add: CELL_SIZE_def)
  have s: "snake play_state = [(50, 50), (25, 50)]" "food_pos play_state = (75, 50)"
    "state play_state = PLAYING"
    by (simp_all add: play_state_def mk_game_def)
  have h5: "list_all (in_bounds (play_state\<lparr>WIDTH := 600, HEIGHT := 400\<rparr>)) (snake play_state)"
    by (simp add: s in_bounds_def)
  have h6: "in_bounds (play_state\<lparr>WIDTH := 600, HEIGHT := 400\<rparr>) (food_pos play_state)"
    by (simp add: s in_bounds_def)
  show ?thesis
    using resize_idempotent [OF h1 h2 h3 h4 h5 h6, of rng0 rng0] h1 h2 h3 h4 s
    by (simp add: CELL_SIZE_def)
qed

section \<open>Food placement\<close>

lemma randint_range:
  assumes "lo \<le> hi"
  shows "lo \<le> randint lo hi r \<and> randint lo hi r \<le> hi"
proof -
  have p: "0 < hi - lo + 1" using assms by simp
  have "0 \<le> int r mod (hi - lo + 1)" using p by (rule pos_mod_sign)
  moreover have "int r mod (hi - lo + 1) < hi - lo + 1" using p by (rule pos_mod_bound)
  ultimately show ?thesis unfolding randint_def by linarith
qed

lemma trial_coordinate:
  assumes "0 < w" and "0 \<le> k" and "k \<le> max 0 (w div CELL_SIZE - 1)"
  shows "0 \<le> k * CELL_SIZE \<and> k * CELL_SIZE < w \<and> (k * CELL_SIZE) mod CELL_SIZE = 0"
proof -
  have "k * 25 < w"
  proof (cases "1 \<le> w div 25")
    case True
    then have "k \<le> w div 25 - 1" using assms(3) by (simp add: CELL_SIZE_def)
    then have "k * 25 \<le> (w div 25) * 25 - 25" by simp
    also have "\<dots> \<le> w - 25" by simp
    finally show ?thesis by simp
  next
    case False
    then have "k = 0" using assms(2,3) by (simp add: CELL_SIZE_def)
    then show ?thesis using assms(1) by simp
  qed
  then show ?thesis using assms(2) by (simp add: CELL_SIZE_def)
qed

lemma trial_grid_cell:
  assumes "0 < WIDTH g" and "0 < HEIGHT g"
      and "GRID_WIDTH g = WIDTH g div CELL_SIZE" and "GRID_HEIGHT g = HEIGHT g div CELL_SIZE"
  shows "grid_cell g (randint 0 (max 0 (GRID_WIDTH g - 1)) i * CELL_SIZE,
                      randint 0 (max 0 (GRID_HEIGHT g - 1)) j * CELL_SIZE)"
proof -
  have x: "0 \<le> randint 0 (max 0 (GRID_WIDTH g - 1)) i \<and>
           randint 0 (max 0 (GRID_WIDTH g - 1)) i \<le> max 0 (GRID_WIDTH g - 1)"
    by (rule randint_range) simp
  have y: "0 \<le> randint 0 (max 0 (GRID_HEIGHT g - 1)) j \<and>
           randint 0 (max 0 (GRID_HEIGHT g - 1)) j \<le> max 0 (GRID_HEIGHT g - 1)"
    by (rule randint_range) simp
  show ?thesis
    unfolding grid_cell_def in_bounds_def fst_conv snd_conv
    using trial_coordinate [OF assms(1), of "randint 0 (max 0 (GRID_WIDTH g - 1)) i"]
      trial_coordinate [OF assms(2), of "randint 0 (max 0 (GRID_HEIGHT g - 1)) j"]
      x y assms(3,4)
    by simp
qed

lemma spawn_attempts_Some:
  "spawn_attempts rnd g a = Some p \<Longrightarrow>
   p \<notin> set (snake g) \<and>
   (\<exists>i j. p = (randint 0 (max 0 (GRID_WIDTH g - 1)) i * CELL_SIZE,
                randint 0 (max 0 (GRID_HEIGHT g - 1)) j * CELL_SIZE))"
proof (induction rnd g a rule: spawn_attempts.induct)
  case (1 rnd g attempts)
  show ?case
  proof (cases "attempts < max_attempts")
    case False
    with "1.prems" show ?thesis by (simp add: spawn_attempts.simps [of rnd g attempts])
  next
    case True
    define x where "x = randint 0 (max 0 (GRID_WIDTH g - 1)) (rnd (2 * attempts)) * CELL_SIZE"
    define y where "y = randint 0 (max 0 (GRID_HEIGHT g - 1)) (rnd (2 * attempts + 1)) * CELL_SIZE"
    show ?thesis
    proof (cases "(x, y) \<notin> set (snake g)")
      case free: True
      have "spawn_attempts rnd g attempts = Some (x, y)"
        using True free
        by (simp add: spawn_attempts.simps [of rnd g attempts] x_def y_def Let_def)
      with "1.prems" have "p = (x, y)" by simp
      with free show ?thesis unfolding x_def y_def by blast
    next
      case occ: False
      have "spawn_attempts rnd g attempts = spawn_attempts rnd g (attempts + 1)"
        using True occ
        by (simp add: spawn_attempts.simps [of rnd g attempts] x_def y_def Let_def)
      with "1.prems" have "spawn_attempts rnd g (attempts + 1) = Some p" by simp
      with "1.IH" [OF True x_def y_def] occ show ?thesis by simp
    qed
  qed
qed

lemma spawn_attempts_None:
  "(\<And>a. a < max_attempts \<Longrightarrow>
      (randint 0 (max 0 (GRID_WIDTH g - 1)) (rnd (2 * a)) * CELL_SIZE,
       randint 0 (max 0 (GRID_HEIGHT g - 1)) (rnd (2 * a + 1)) * CELL_SIZE) \<in> set (snake g)) \<Longrightarrow>
   spawn_attempts rnd g a0 = None"
proof (induction rnd g a0 rule: spawn_attempts.induct)
  case (1 rnd g attempts)
  show ?case
  proof (cases "attempts < max_attempts")
    case False
    then show ?thesis by (simp add: spawn_attempts.simps [of rnd g attempts])
  next
    case True
    have occ: "(randint 0 (max 0 (GRID_WIDTH g - 1)) (rnd (2 * attempts)) * CELL_SIZE,
         randint 0 (max 0 (GRID_HEIGHT g - 1)) (rnd (2 * attempts + 1)) * CELL_SIZE)
         \<in> set (snake g)"
      using True by (rule "1.prems")
    have "spawn_attempts rnd g attempts = spawn_attempts rnd g (attempts + 1)"
      using True occ by (simp add: spawn_attempts.simps [of rnd g attempts] Let_def)
    also have "\<dots> = None"
      using True refl refl _ "1.prems" by (rule "1.IH") (use occ in simp)
    finally show ?thesis .
  qed
qed

lemma next_multiple:
  assumes "(a::int) mod CELL_SIZE = 0" and "b mod CELL_SIZE = 0" and "a \<le> b" and "a \<noteq> b"
  shows "a + CELL_SIZE \<le> b"
  using assms unfolding CELL_SIZE_def by presburger

lemma scan_y_None:
  "scan_y g x y = None \<Longrightarrow> y mod CELL_SIZE = 0 \<Longrightarrow>
   y \<le> y' \<Longrightarrow> y' < HEIGHT g \<Longrightarrow> y' mod CELL_SIZE = 0 \<Longrightarrow> (x, y') \<in> set (snake g)"
proof (induction g x y rule: scan_y.induct)
  case (1 g x y)
  have lt: "y < HEIGHT g" using "1.prems"(3,4) by simp
  have occ: "(x, y) \<in> set (snake g)"
    using "1.prems"(1) lt by (simp add: scan_y.simps [of g x y] split: if_splits)
  have nxt: "scan_y g x (y + CELL_SIZE) = None"
    using "1.prems"(1) lt occ by (simp add: scan_y.simps [of g x y])
  show ?case
  proof (cases "y' = y")
    case True
    with occ show ?thesis by simp
  next
    case False
    then have "y + CELL_SIZE \<le> y'"
      using next_multiple [OF "1.prems"(2) "1.prems"(5) "1.prems"(3)] by simp
    moreover have "(y + CELL_SIZE) mod CELL_SIZE = 0"
      using "1.prems"(2) by simp
    ultimately show ?thesis
      using "1.IH" lt occ nxt "1.prems"(4,5) by simp
  qed
qed

lemma scan_y_Some:
  "scan_y g x y = Some p \<Longrightarrow> y mod CELL_SIZE = 0 \<Longrightarrow>
   fst p = x \<and> y \<le> snd p \<and> snd p < HEIGHT g \<and> snd p mod CELL_SIZE = 0 \<and>
   p \<notin> set (snake g) \<and>
   (\<forall>y'. y \<le> y' \<and> y' < snd p \<and> y' mod CELL_SIZE = 0 \<longrightarrow> (x, y') \<in> set (snake g))"
proof (induction g x y rule: scan_y.induct)
  case (1 g x y)
  have lt: "y < HEIGHT g"
    using "1.prems"(1) by (simp add: scan_y.simps [of g x y] split: if_splits)
  show ?case
  proof (cases "(x, y) \<notin> set (snake g)")
    case True
    then have "p = (x, y)"
      using "1.prems"(1) lt by (simp add: scan_y.simps [of g x y])
    then show ?thesis
      using True lt "1.prems"(2) by auto
  next
    case False
    then have nxt: "scan_y g x (y + CELL_SIZE) = Some p"
      using "1.prems"(1) lt by (simp add: scan_y.simps [of g x y])
    have m: "(y + CELL_SIZE) mod CELL_SIZE = 0"
      using "1.prems"(2) by simp
    have ih: "fst p = x \<and> y + CELL_SIZE \<le> snd p \<and> snd p < HEIGHT g \<and>
        snd p mod CELL_SIZE = 0 \<and> p \<notin> set (snake g) \<and>
        (\<forall>y'. y + CELL_SIZE \<le> y' \<and> y' < snd p \<and> y' mod CELL_SIZE = 0 \<longrightarrow>
           (x, y') \<in> set (snake g))"
      using "1.IH" lt False nxt m by simp
    have before: "(x, y') \<in> set (snake g)"
      if "y \<le> y'" "y' < snd p" "y' mod CELL_SIZE = 0" for y'
    proof (cases "y' = y")
      case True
      with False show ?thesis by simp
    next
      case ne: False
      then have "y + CELL_SIZE \<le> y'"
        using next_multiple [OF "1.prems"(2) that(3) that(1)] by simp
      with ih that show ?thesis by simp
    qed
    have "y \<le> snd p" using ih by (simp add: CELL_SIZE_def)
    with ih before show ?thesis by simp
  qed
qed

lemma scan_x_None:
  "scan_x g x = None \<Longrightarrow> x mod CELL_SIZE = 0 \<Longrightarrow>
   grid_cell g q \<Longrightarrow> x \<le> fst q \<Longrightarrow> q \<in> set (snake g)"
proof (induction g x rule: scan_x.induct)
  case (1 g x)
  have q: "0 \<le> snd q" "snd q < HEIGHT g" "snd q mod CELL_SIZE = 0" "fst q < WIDTH g"
    "fst q mod CELL_SIZE = 0"
    using "1.prems"(3) by (simp_all add: grid_cell_def in_bounds_def)
  have lt: "x < WIDTH g" using "1.prems"(4) q(4) by simp
  have col: "scan_y g x 0 = None"
    using "1.prems"(1) lt by (simp add: scan_x.simps [of g x] split: option.splits)
  have nxt: "scan_x g (x + CELL_SIZE) = None"
    using "1.prems"(1) lt col by (simp add: scan_x.simps [of g x])
  show ?case
  proof (cases "fst q = x")
    case True
    have "(x, snd q) \<in> set (snake g)"
      using col _ q(1,2,3) by (rule scan_y_None) simp
    with True show ?thesis by (metis prod.collapse)
  next
    case False
    then have "x + CELL_SIZE \<le> fst q"
      using next_multiple [OF "1.prems"(2) q(5) "1.prems"(4)] by simp
    moreover have "(x + CELL_SIZE) mod CELL_SIZE = 0"
      using "1.prems"(2) by simp
    ultimately show ?thesis
      using "1.IH" lt col nxt "1.prems"(3) by simp
  qed
qed

lemma scan_x_Some:
  "scan_x g x = Some p \<Longrightarrow> x mod CELL_SIZE = 0 \<Longrightarrow> 0 \<le> x \<Longrightarrow>
   grid_cell g p \<and> x \<le> fst p \<and> p \<notin> set (snake g) \<and>
   (\<forall>q. grid_cell g q \<and> x \<le> fst q \<and> column_major_before q p \<longrightarrow> q \<in> set (snake g))"
proof (induction g x rule: scan_x.induct)
  case (1 g x)
  have lt: "x < WIDTH g"
    using "1.prems"(1) by (simp add: scan_x.simps [of g x] split: if_splits)
  show ?case
  proof (cases "scan_y g x 0")
    case (Some p')
    then have pp: "p = p'"
      using "1.prems"(1) lt by (simp add: scan_x.simps [of g x])
    have sy: "fst p = x \<and> 0 \<le> snd p \<and> snd p < HEIGHT g \<and> snd p mod CELL_SIZE = 0 \<and>
        p \<notin> set (snake g) \<and>
        (\<forall>y'. 0 \<le> y' \<and> y' < snd p \<and> y' mod CELL_SIZE = 0 \<longrightarrow> (x, y') \<in> set (snake g))"
      using scan_y_Some [of g x 0 p] Some pp by simp
    have cell: "grid_cell g p"
      using sy lt "1.prems"(2,3) by (simp add: grid_cell_def in_bounds_def)
    have before: "q \<in> set (snake g)"
      if "grid_cell g q" "x \<le> fst q" "column_major_before q p" for q
    proof -
      have "fst q = x \<and> snd q < snd p"
        using that(2,3) sy by (auto simp: column_major_before_def)
      moreover have "0 \<le> snd q \<and> snd q mod CELL_SIZE = 0"
        using that(1) by (simp add: grid_cell_def in_bounds_def)
      ultimately have "(x, snd q) \<in> set (snake g)" using sy by simp
      with \<open>fst q = x \<and> snd q < snd p\<close> show ?thesis by (metis prod.collapse)
    qed
    show ?thesis using cell sy before by simp
  next
    case None
    then have nxt: "scan_x g (x + CELL_SIZE) = Some p"
      using "1.prems"(1) lt by (simp add: scan_x.simps [of g x])
    have m: "(x + CELL_SIZE) mod CELL_SIZE = 0" "0 \<le> x + CELL_SIZE"
      using "1.prems"(2,3) by (simp_all add: CELL_SIZE_def)
    have ih: "grid_cell g p \<and> x + CELL_SIZE \<le> fst p \<and> p \<notin> set (snake g) \<and>
        (\<forall>q. grid_cell g q \<and> x + CELL_SIZE \<le> fst q \<and> column_major_before q p \<longrightarrow>
           q \<in> set (snake g))"
      using "1.IH" lt None nxt m by simp
    have before: "q \<in> set (snake g)"
      if "grid_cell g q" "x \<le> fst q" "column_major_before q p" for q
    proof (cases "fst q = x")
      case True
      have q: "0 \<le> snd q" "snd q < HEIGHT g" "snd q mod CELL_SIZE = 0"
        using that(1) by (simp_all add: grid_cell_def in_bounds_def)
      have "(x, snd q) \<in> set (snake g)"
        using None _ q by (rule scan_y_None) simp
      with True show ?thesis by (metis prod.collapse)
    next
      case False
      have "fst q mod CELL_SIZE = 0"
        using that(1) by (simp add: grid_cell_def)
      then have "x + CELL_SIZE \<le> fst q"
        using next_multiple [OF "1.prems"(2) _ that(2)] False by simp
      with ih that show ?thesis by blast
    qed
    have "x \<le> fst p" using ih by (simp add: CELL_SIZE_def)
    with ih before show ?thesis by simp
  qed
qed

lemma grid_cell_update_grid:
  "grid_cell (update_grid_dimensions g) = grid_cell g"
  by (rule ext) (simp add: grid_cell_def in_bounds_def update_grid_dimensions_fields)

lemma grid_positive:
  "grid_cell g p \<Longrightarrow> 0 < WIDTH g \<and> 0 < HEIGHT g"
  by (auto simp: grid_cell_def in_bounds_def)

lemma spawn_food_cases:
  fixes r g
  defines "G \<equiv> update_grid_dimensions g"
  shows "(\<exists>p. spawn_attempts (draws r) G 0 = Some p \<and> fst (spawn_food r g) = p) \<or>
         (\<exists>p. spawn_attempts (draws r) G 0 = None \<and> scan_x G 0 = Some p \<and>
              fst (spawn_food r g) = p) \<or>
         (spawn_attempts (draws r) G 0 = None \<and> scan_x G 0 = None \<and>
              fst (spawn_food r g) = (CELL_SIZE, CELL_SIZE))"
  unfolding G_def spawn_food_def Let_def
  by (cases "spawn_attempts (draws r) (update_grid_dimensions g) 0";
      cases "scan_x (update_grid_dimensions g) 0") simp_all

lemma attempt_free_cell:
  assumes "spawn_attempts rnd (update_grid_dimensions g) a = Some p"
      and "0 < WIDTH g" and "0 < HEIGHT g"
  shows "grid_cell g p \<and> p \<notin> set (snake g)"
proof -
  define G where "G = update_grid_dimensions g"
  have G: "0 < WIDTH G" "0 < HEIGHT G" "GRID_WIDTH G = WIDTH G div CELL_SIZE"
    "GRID_HEIGHT G = HEIGHT G div CELL_SIZE" "snake G = snake g"
    using assms(2,3) by (simp_all add: G_def update_grid_dimensions_fields)
  from spawn_attempts_Some [OF assms(1) [folded G_def]]
  obtain i j where free: "p \<notin> set (snake G)"
    and p: "p = (randint 0 (max 0 (GRID_WIDTH G - 1)) i * CELL_SIZE,
                 randint 0 (max 0 (GRID_HEIGHT G - 1)) j * CELL_SIZE)"
    by blast
  have "grid_cell G p"
    unfolding p using G(1-4) by (rule trial_grid_cell)
  then show ?thesis
    using free by (simp add: G_def grid_cell_update_grid update_grid_dimensions_fields)
qed

lemma scan_free_cell:
  assumes "scan_x (update_grid_dimensions g) 0 = Some p"
  shows "grid_cell g p \<and> p \<notin> set (snake g) \<and>
         (\<forall>q. grid_cell g q \<and> column_major_before q p \<longrightarrow> q \<in> set (snake g))"
proof -
  have "grid_cell (update_grid_dimensions g) p \<and> 0 \<le> fst p \<and>
      p \<notin> set (snake (update_grid_dimensions g)) \<and>
      (\<forall>q. grid_cell (update_grid_dimensions g) q \<and> 0 \<le> fst q \<and> column_major_before q p
          \<longrightarrow> q \<in> set (snake (update_grid_dimensions g)))"
    using assms by (rule scan_x_Some) simp_all
  then show ?thesis
    by (auto simp: grid_cell_update_grid update_grid_dimensions_fields grid_cell_def in_bounds_def)
qed

lemma scan_full_grid:
  assumes "scan_x (update_grid_dimensions g) 0 = None" and "grid_cell g q"
  shows "q \<in> set (snake g)"
proof -
  have "q \<in> set (snake (update_grid_dimensions g))"
    using assms(1) _ _ _
  proof (rule scan_x_None)
    show "grid_cell (update_grid_dimensions g) q"
      using assms(2) by (simp add: grid_cell_update_grid)
    show "0 \<le> fst q" using assms(2) by (simp add: grid_cell_def in_bounds_def)
  qed simp
  then show ?thesis by (simp add: update_grid_dimensions_fields)
qed

text \<open>
  C6. A grid cell is a position inside the window whose coordinates are multiples of
  the cell size. When some grid cell is not on the snake, \<open>spawn_food\<close> returns a grid
  cell that is not on the snake. When every grid cell of a non-empty window is on the
  snake, it returns \<open>(CELL_SIZE, CELL_SIZE)\<close>. The result lies on the snake only in that
  case: then every grid cell is occupied and the result is \<open>(CELL_SIZE, CELL_SIZE)\<close>.
\<close>

theorem spawn_food_free_cell:
  "((\<exists>p. grid_cell g p \<and> p \<notin> set (snake g)) \<longrightarrow>
      grid_cell g (fst (spawn_food r g)) \<and> fst (spawn_food r g) \<notin> set (snake g))
   \<and> (0 < WIDTH g \<and> 0 < HEIGHT g \<and> (\<forall>p. grid_cell g p \<longrightarrow> p \<in> set (snake g)) \<longrightarrow>
      fst (spawn_food r g) = (CELL_SIZE, CELL_SIZE))
   \<and> (fst (spawn_food r g) \<in> set (snake g) \<longrightarrow>
      (\<forall>p. grid_cell g p \<longrightarrow> p \<in> set (snake g)) \<and>
      fst (spawn_food r g) = (CELL_SIZE, CELL_SIZE))"
proof -
  define G where "G = update_grid_dimensions g"
  consider
    (trial) p where "spawn_attempts (draws r) G 0 = Some p" "fst (spawn_food r g) = p"
  | (scan) p where "spawn_attempts (draws r) G 0 = None" "scan_x G 0 = Some p"
      "fst (spawn_food r g) = p"
  | (fallback) "spawn_attempts (draws r) G 0 = None" "scan_x G 0 = None"
      "fst (spawn_food r g) = (CELL_SIZE, CELL_SIZE)"
    using spawn_food_cases [of r g] unfolding G_def by (elim disjE exE conjE) blast+
  then show ?thesis
  proof cases
    case trial
    have free: "p \<notin> set (snake g)"
      using spawn_attempts_Some [OF trial(1)]
      by (simp add: G_def update_grid_dimensions_fields)
    have pos: "0 < WIDTH g \<Longrightarrow> 0 < HEIGHT g \<Longrightarrow> grid_cell g p"
      using attempt_free_cell [OF trial(1) [unfolded G_def]] by simp
    have c1: "(\<exists>q. grid_cell g q \<and> q \<notin> set (snake g)) \<longrightarrow>
        grid_cell g p \<and> p \<notin> set (snake g)"
      using pos free grid_positive by blast
    have c2: "0 < WIDTH g \<and> 0 < HEIGHT g \<and> (\<forall>q. grid_cell g q \<longrightarrow> q \<in> set (snake g)) \<longrightarrow>
        p = (CELL_SIZE, CELL_SIZE)"
      using pos free by blast
    have c3: "p \<in> set (snake g) \<longrightarrow>
        (\<forall>q. grid_cell g q \<longrightarrow> q \<in> set (snake g)) \<and> p = (CELL_SIZE, CELL_SIZE)"
      using free by blast
    show ?thesis
      unfolding trial(2) by (intro conjI c1 c2 c3)
  next
    case scan
    have sc: "grid_cell g p" "p \<notin> set (snake g)"
      using scan_free_cell [OF scan(2) [unfolded G_def]] by simp_all
    have c1: "(\<exists>q. grid_cell g q \<and> q \<notin> set (snake g)) \<longrightarrow>
        grid_cell g p \<and> p \<notin> set (snake g)"
      using sc by blast
    have c2: "0 < WIDTH g \<and> 0 < HEIGHT g \<and> (\<forall>q. grid_cell g q \<longrightarrow> q \<in> set (snake g)) \<longrightarrow>
        p = (CELL_SIZE, CELL_SIZE)"
      using sc by blast
    have c3: "p \<in> set (snake g) \<longrightarrow>
        (\<forall>q. grid_cell g q \<longrightarrow> q \<in> set (snake g)) \<and> p = (CELL_SIZE, CELL_SIZE)"
      using sc by blast
    show ?thesis
      unfolding scan(3) by (intro conjI c1 c2 c3)
  next
    case fallback
    have full: "\<forall>q. grid_cell g q \<longrightarrow> q \<in> set (snake g)"
      using scan_full_grid [OF fallback(2) [unfolded G_def]] by blast
    show ?thesis
      unfolding fallback(3) using full by blast
  qed
qed

text \<open>
  C7, amended. When all random attempts of \<open>spawn_food\<close> collide with the snake and a
  free grid cell exists, the result is a free grid cell, and every grid cell before it in
  column-major order (all cells of one column of constant x, in increasing y, before the
  next column) is on the snake: the scan returns the first free cell in that order.
\<close>

theorem fallback_scan_column_major:
  assumes "spawn_attempts (draws r) (update_grid_dimensions g) 0 = None"
      and "\<exists>p. grid_cell g p \<and> p \<notin> set (snake g)"
  shows "grid_cell g (fst (spawn_food r g)) \<and> fst (spawn_food r g) \<notin> set (snake g) \<and>
         (\<forall>q. grid_cell g q \<and> column_major_before q (fst (spawn_food r g)) \<longrightarrow>
              q \<in> set (snake g))"
proof (cases "scan_x (update_grid_dimensions g) 0")
  case None
  then show ?thesis
    using assms(2) scan_full_grid by blast
next
  case (Some p)
  then have "fst (spawn_food r g) = p"
    using assms(1) by (simp add: spawn_food_def Let_def)
  then show ?thesis
    using scan_free_cell [OF Some] by simp
qed

lemma multiple_below_50:
  "(0::int) \<le> x \<Longrightarrow> x < 50 \<Longrightarrow> x mod 25 = 0 \<Longrightarrow> x = 0 \<or> x = 25"
  by presburger

text \<open>
  The theorem at a game with free cells, and at a window of two by two cells that the
  snake fills, where the fallback position \<open>(25, 25)\<close> is on the snake.
\<close>

theorem spawn_food_free_cell_witness:
  "grid_cell play_state (0, 0) \<and> (0, 0) \<notin> set (snake play_state) \<and>
   grid_cell play_state (fst (spawn_food rng0 play_state)) \<and>
   fst (spawn_food rng0 play_state) \<notin> set (snake play_state) \<and>
   0 < WIDTH full_state \<and> 0 < HEIGHT full_state \<and>
   fst (spawn_food rng0 full_state) = (25, 25) \<and>
   fst (spawn_food rng0 full_state) \<in> set (snake full_state)"
proof -
  have c: "grid_cell play_state (0, 0)" "(0, 0) \<notin> set (snake play_state)"
    by (simp_all add: play_state_def mk_game_def grid_cell_def in_bounds_def CELL_SIZE_def)
  then have ex: "\<exists>p. grid_cell play_state p \<and> p \<notin> set (snake play_state)"
    by blast
  have wh: "0 < WIDTH full_state" "0 < HEIGHT full_state"
    by (simp_all add: full_state_def mk_game_def)
  have sn: "snake full_state = [(0, 0), (0, 25), (25, 25), (25, 0)]"
    by (simp add: full_state_def mk_game_def)
  have full: "\<forall>p. grid_cell full_state p \<longrightarrow> p \<in> set (snake full_state)"
  proof (intro allI impI)
    fix p assume "grid_cell full_state p"
    then have "0 \<le> fst p" "fst p < 50" "fst p mod 25 = 0"
      "0 \<le> snd p" "snd p < 50" "snd p mod 25 = 0"
      by (simp_all add: grid_cell_def in_bounds_def full_state_def mk_game_def CELL_SIZE_def)
    then have "(fst p = 0 \<or> fst p = 25) \<and> (snd p = 0 \<or> snd p = 25)"
      by (simp add: multiple_below_50)
    moreover obtain x y where p: "p = (x, y)" by (cases p)
    ultimately show "p \<in> set (snake full_state)"
      unfolding sn p by auto
  qed
  have a: "grid_cell play_state (fst (spawn_food rng0 play_state)) \<and>
      fst (spawn_food rng0 play_state) \<notin> set (snake play_state)"
    using spawn_food_free_cell [of play_state rng0, THEN conjunct1] ex by (rule mp)
  have b: "fst (spawn_food rng0 full_state) = (25, 25)"
    using spawn_food_free_cell [of full_state rng0, THEN conjunct2, THEN conjunct1, THEN mp,
        OF conjI [OF wh(1) conjI [OF wh(2) full]]]
    by (simp add: CELL_SIZE_def)
  have "fst (spawn_food rng0 full_state) \<in> set (snake full_state)"
    unfolding b sn by simp
  with a b c wh show ?thesis by simp
qed

lemma corner_attempts_collide:
  "spawn_attempts (draws rng0) (update_grid_dimensions corner_state) 0 = None"
  by (rule spawn_attempts_None)
     (simp add: rng0_def corner_state_def mk_game_def update_grid_dimensions_def randint_def
        CELL_SIZE_def)

lemma corner_scan:
  "scan_x (update_grid_dimensions corner_state) 0 = Some (0, 25)"
  by (simp add: scan_x.simps [of _ 0] scan_y.simps [of _ 0 0] scan_y.simps [of _ 0 25]
      corner_state_def mk_game_def update_grid_dimensions_def CELL_SIZE_def)

text \<open>
  C7 as stated fails: in the same game the scan returns \<open>(0, 25)\<close>, although the free
  cell \<open>(25, 0)\<close> comes before it in row-major order.
\<close>

theorem fallback_scan_row_major_counterexample:
  "spawn_attempts (draws rng0) (update_grid_dimensions corner_state) 0 = None \<and>
   fst (spawn_food rng0 corner_state) = (0, 25) \<and>
   grid_cell corner_state (25, 0) \<and> (25, 0) \<notin> set (snake corner_state) \<and>
   row_major_before (25, 0) (0, 25)"
proof -
  have "fst (spawn_food rng0 corner_state) = (0, 25)"
    by (simp add: spawn_food_def Let_def corner_attempts_collide corner_scan)
  moreover have "grid_cell corner_state (25, 0)" "(25, 0) \<notin> set (snake corner_state)"
    by (simp_all add: corner_state_def mk_game_def grid_cell_def in_bounds_def CELL_SIZE_def)
  moreover have "row_major_before (25, 0) (0, 25)"
    by (simp add: row_major_before_def)
  ultimately show ?thesis
    using corner_attempts_collide by simp
qed

text \<open>
  The theorem at a snake on the cell \<open>(0, 0)\<close> with a random source that draws that cell
  at every attempt.
\<close>

theorem fallback_scan_column_major_witness:
  "spawn_attempts (draws rng0) (update_grid_dimensions corner_state) 0 = None \<and>
   grid_cell corner_state (25, 0) \<and> (25, 0) \<notin> set (snake corner_state) \<and>
   fst (spawn_food rng0 corner_state) = (0, 25) \<and>
   grid_cell corner_state (fst (spawn_food rng0 corner_state)) \<and>
   fst (spawn_food rng0 corner_state) \<notin> set (snake corner_state) \<and>
   column_major_before (0, 0) (fst (spawn_food rng0 corner_state)) \<and>
   (0, 0) \<in> set (snake corner_state)"
proof -
  have c: "grid_cell corner_state (25, 0)" "(25, 0) \<notin> set (snake corner_state)"
    "grid_cell corner_state (0, 0)"
    by (simp_all add: corner_state_def mk_game_def grid_cell_def in_bounds_def CELL_SIZE_def)
  then have ex: "\<exists>p. grid_cell corner_state p \<and> p \<notin> set (snake corner_state)"
    by blast
  have v: "fst (spawn_food rng0 corner_state) = (0, 25)"
    by (simp add: spawn_food_def Let_def corner_attempts_collide corner_scan)
  have cm: "column_major_before (0, 0) (fst (spawn_food rng0 corner_state))"
    unfolding v by (simp add: column_major_before_def)
  note t = fallback_scan_column_major [OF corner_attempts_collide ex]
  have z: "(0, 0) \<in> set (snake corner_state)"
    using t [THEN conjunct2, THEN conjunct2, THEN spec, of "(0, 0)"] c(3) cm by simp
  have t2: "grid_cell corner_state (fst (spawn_food rng0 corner_state))"
    "fst (spawn_food rng0 corner_state) \<notin> set (snake corner_state)"
    using t by simp_all
  show ?thesis
    by (intro conjI corner_attempts_collide c(1,2) v t2 cm z)
qed

end
